theory Spec2Isabelle
  imports Main
begin

section \<open>Python values and operations used by \<open>ollama_tool.py\<close>\<close>

text \<open>
  The exceptions the program raises or catches. \<open>ValueError\<close> stands for what
  \<open>str.index\<close>, \<open>str.rindex\<close> and \<open>json.loads\<close> raise (a JSON decode error is a
  \<open>ValueError\<close> in Python); \<open>RuntimeError\<close> carries its message.
\<close>

datatype error = RuntimeError string | ValueError

text \<open>
  The objects \<open>json.loads\<close> returns. \<open>PyNone\<close> is Python's \<open>None\<close>: it is both the
  decoded JSON \<open>null\<close> and the value \<open>try_parse_json\<close> returns when every attempt has
  failed. A float is kept as its literal: no claim computes with it. A dict is an
  association list in insertion order.
\<close>

datatype pyobj =
    PyNone
  | PyBool bool
  | PyInt int
  | PyFloat string
  | PyStr string
  | PyList "pyobj list"
  | PyDict "(string \<times> pyobj) list"

fun is_list :: "pyobj \<Rightarrow> bool" where
  "is_list (PyList xs) = True"
| "is_list v = False"

fun is_dict :: "pyobj \<Rightarrow> bool" where
  "is_dict (PyDict kvs) = True"
| "is_dict v = False"

text \<open>
  Python's slice \<open>xs[i:j]\<close>: a negative bound counts from the end, and every bound is
  clamped to \<open>0 .. len(xs)\<close>; the slice is empty when the bounds cross.
\<close>

definition slice_bound :: "int \<Rightarrow> nat \<Rightarrow> nat" where
  "slice_bound i n =
     (if i < 0 then (if i + int n < 0 then 0 else nat (i + int n))
      else if i > int n then n else nat i)"

definition slice :: "'a list \<Rightarrow> int \<Rightarrow> int \<Rightarrow> 'a list" where
  "slice xs i j =
     (let lo = slice_bound i (length xs); hi = slice_bound j (length xs)
      in take (hi - lo) (drop lo xs))"

text \<open>
  \<open>s.index(c)\<close> and \<open>s.rindex(c)\<close> for a one-character \<open>c\<close>: the position of the first
  and of the last occurrence; both raise \<open>ValueError\<close> when there is none.
\<close>

fun index :: "'a list \<Rightarrow> 'a \<Rightarrow> error + int" where
  "index [] c = Inl ValueError"
| "index (x # xs) c =
     (if x = c then Inr 0
      else (case index xs c of Inl e \<Rightarrow> Inl e | Inr i \<Rightarrow> Inr (i + 1)))"

fun rindex :: "'a list \<Rightarrow> 'a \<Rightarrow> error + int" where
  "rindex [] c = Inl ValueError"
| "rindex (x # xs) c =
     (case rindex xs c of
        Inr i \<Rightarrow> Inr (i + 1)
      | Inl e \<Rightarrow> (if x = c then Inr 0 else Inl e))"








section \<open>Text source adapter: \<open>extract_text\<close>\<close>


section \<open>Chunker: \<open>chunk_text\<close>\<close>

text \<open>
  The \<open>while\<close> loop of \<open>chunk_text\<close>, with its two exits: the loop condition and the
  \<open>break\<close>. The loop may run forever, so it is a partial function: \<open>None\<close> means that
  the call does not return. \<open>start\<close> is a Python integer and can become negative.
\<close>

partial_function (option) chunk_loop ::
  "'a list \<Rightarrow> int \<Rightarrow> int \<Rightarrow> 'a list list \<Rightarrow> int \<Rightarrow> 'a list list option" where
  "chunk_loop text chunk_size overlap chunks start =
     (if start < int (length text) then
        (let end = min (start + chunk_size) (int (length text));
             chunks' = chunks @ [slice text start end];
             start' = end - overlap
         in if start' \<ge> int (length text) then Some chunks'
            else chunk_loop text chunk_size overlap chunks' start')
      else Some chunks)"

declare chunk_loop.simps [code]

definition chunk_text :: "'a list \<Rightarrow> int \<Rightarrow> int \<Rightarrow> 'a list list option" where
  "chunk_text text chunk_size overlap =
     map_option (\<lambda>chunks. if chunks \<noteq> [] then chunks else [text])
       (chunk_loop text chunk_size overlap [] 0)"

section \<open>Resilient JSON extractor: \<open>try_parse_json\<close>\<close>

text \<open>
  \<open>json.loads\<close> is the parameter \<open>loads\<close>: it returns the decoded object or raises.
  Each \<open>except Exception\<close> catches whatever the \<open>try\<close> block before it raised.
\<close>

definition try_parse_json :: "(string \<Rightarrow> error + pyobj) \<Rightarrow> string \<Rightarrow> pyobj" where
  "try_parse_json loads s =
     (case loads s of
        Inr v \<Rightarrow> v
      | Inl e1 \<Rightarrow>
          (case (case index s (CHR ''{'') of
                   Inl e \<Rightarrow> Inl e
                 | Inr start \<Rightarrow>
                     (case rindex s (CHR ''}'') of
                        Inl e \<Rightarrow> Inl e
                      | Inr end \<Rightarrow> loads (slice s start (end + 1)))) of
             Inr v \<Rightarrow> v
           | Inl e2 \<Rightarrow>
               (case (case index s (CHR ''['') of
                        Inl e \<Rightarrow> Inl e
                      | Inr start \<Rightarrow>
                          (case rindex s (CHR '']'') of
                             Inl e \<Rightarrow> Inl e
                           | Inr end \<Rightarrow> loads (slice s start (end + 1)))) of
                  Inr v \<Rightarrow> v
                | Inl e3 \<Rightarrow> PyNone)))"

text \<open>
  The extractor as the specification words it, for comparison with the code: the
  position of the first and of the last occurrence of a character, the inclusive
  slice between two positions, one bracket strategy, and the chain of strategies.
  \<open>NoValue\<close> is \<open>PyNone\<close>.
\<close>

definition first_pos :: "char \<Rightarrow> string \<Rightarrow> nat option" where
  "first_pos c s =
     (if c \<in> set s then Some (length (takeWhile (\<lambda>x. x \<noteq> c) s)) else None)"

definition last_pos :: "char \<Rightarrow> string \<Rightarrow> nat option" where
  "last_pos c s =
     (if c \<in> set s then Some (length s - 1 - length (takeWhile (\<lambda>x. x \<noteq> c) (rev s)))
      else None)"

definition between :: "string \<Rightarrow> nat \<Rightarrow> nat \<Rightarrow> string" where
  "between s i j = take (Suc j - i) (drop i s)"

definition bracket_spec ::
  "(string \<Rightarrow> error + pyobj) \<Rightarrow> char \<Rightarrow> char \<Rightarrow> string \<Rightarrow> pyobj option" where
  "bracket_spec loads opener closer s =
     (case first_pos opener s of
        None \<Rightarrow> None
      | Some i \<Rightarrow>
          (case last_pos closer s of
             None \<Rightarrow> None
           | Some j \<Rightarrow> (case loads (between s i j) of Inl e \<Rightarrow> None | Inr v \<Rightarrow> Some v)))"

definition recover_spec :: "(string \<Rightarrow> error + pyobj) \<Rightarrow> string \<Rightarrow> pyobj" where
  "recover_spec loads s =
     (case loads s of
        Inr v \<Rightarrow> v
      | Inl e \<Rightarrow>
          (case bracket_spec loads (CHR ''{'') (CHR ''}'') s of
             Some v \<Rightarrow> v
           | None \<Rightarrow>
               (case bracket_spec loads (CHR ''['') (CHR '']'') s of
                  Some v \<Rightarrow> v
                | None \<Rightarrow> PyNone)))"

text \<open>
  A decoder for the examples: it decodes three literals as \<open>json.loads\<close> does and
  raises on every other string.
\<close>

definition example_loads :: "string \<Rightarrow> error + pyobj" where
  "example_loads s =
     (if s = ''{}'' then Inr (PyDict [])
      else if s = ''[1, 2]'' then Inr (PyList [PyInt 1, PyInt 2])
      else if s = ''5'' then Inr (PyInt 5)
      else Inl ValueError)"

section \<open>Aggregator: the accumulation in \<open>main\<close>\<close>

text \<open>
  Lines 180 to 184 of \<open>main\<close>: what one parsed reply adds to \<open>all_parsed\<close>. Then the
  \<open>for\<close> loop over the parsed replies of the successive chunks, and over the raw
  replies \<open>out\<close> of the model.
\<close>

definition collect :: "pyobj list \<Rightarrow> pyobj \<Rightarrow> pyobj list" where
  "collect all_parsed parsed =
     (if parsed \<noteq> PyNone then
        (case parsed of
           PyList xs \<Rightarrow> all_parsed @ xs
         | PyDict kvs \<Rightarrow> all_parsed @ [parsed]
         | _ \<Rightarrow> all_parsed)
      else all_parsed)"

fun aggregate :: "pyobj list \<Rightarrow> pyobj list \<Rightarrow> pyobj list" where
  "aggregate all_parsed [] = all_parsed"
| "aggregate all_parsed (parsed # rest) = aggregate (collect all_parsed parsed) rest"

definition main_loop :: "(string \<Rightarrow> error + pyobj) \<Rightarrow> string list \<Rightarrow> pyobj list" where
  "main_loop loads outs = aggregate [] (map (try_parse_json loads) outs)"

text \<open>
  The aggregation rule as the specification words it: what one recovered value
  contributes to the record set.
\<close>

fun contribution_spec :: "pyobj \<Rightarrow> pyobj list" where
  "contribution_spec (PyList xs) = xs"
| "contribution_spec (PyDict kvs) = [PyDict kvs]"
| "contribution_spec v = []"

section \<open>Table materializer: \<open>save_structured\<close> and the end of \<open>main\<close>\<close>









section \<open>Properties of the chunker\<close>

lemma slice_nonneg:
  "0 \<le> i \<Longrightarrow> i \<le> j \<Longrightarrow> j \<le> int (length xs) \<Longrightarrow>
   slice xs i j = take (nat j - nat i) (drop (nat i) xs)"
  by (simp add: slice_def slice_bound_def Let_def)

text \<open>
  With a positive overlap the cursor set by line 77 is \<open>end - overlap\<close>, which is below
  the length of the text whatever \<open>end\<close> was. So neither the \<open>break\<close> of line 78 nor the
  loop condition ever ends a loop that has started: no call of the loop with a cursor
  inside the text returns.
\<close>

lemma chunk_loop_returns_only_without_overlap:
  assumes "chunk_loop text chunk_size overlap chunks start = Some y"
  shows "\<not> (0 < overlap \<and> start < int (length text))"
proof (rule chunk_loop.raw_induct
    [where P = "\<lambda>t sz ov cs st y. \<not> (0 < ov \<and> st < int (length t))", OF _ assms])
  fix f :: "'a list \<Rightarrow> int \<Rightarrow> int \<Rightarrow> 'a list list \<Rightarrow> int \<Rightarrow> 'a list list option"
  fix t :: "'a list" and sz ov :: int and cs :: "'a list list" and st :: int and y
  let ?n = "int (length t)"
  let ?e = "min (st + sz) ?n"
  assume IH: "\<And>t sz ov cs st y. f t sz ov cs st = Some y \<Longrightarrow> \<not> (0 < ov \<and> st < int (length t))"
  assume body: "(if st < ?n then
        (let end = min (st + sz) ?n;
             chunks' = cs @ [slice t st end];
             start' = end - ov
         in if start' \<ge> ?n then Some chunks'
            else f t sz ov chunks' start')
      else Some cs) = Some y"
  show "\<not> (0 < ov \<and> st < ?n)"
  proof
    assume a: "0 < ov \<and> st < ?n"
    then have lt: "?e - ov < ?n" by linarith
    from body a lt have "f t sz ov (cs @ [slice t st ?e]) (?e - ov) = Some y"
      by (simp add: Let_def)
    from IH[OF this] a lt show False by simp
  qed
qed

lemma chunk_loop_diverges:
  "0 < overlap \<Longrightarrow> start < int (length text) \<Longrightarrow>
   chunk_loop text chunk_size overlap chunks start = None"
  using chunk_loop_returns_only_without_overlap [of "text" chunk_size overlap chunks start]
  by (cases "chunk_loop text chunk_size overlap chunks start") auto

text \<open>
  Without overlap the cursor advances by the length of each chunk, the loop ends, and
  the chunks are a partition of the text from the cursor on.
\<close>

lemma chunk_loop_no_overlap:
  assumes "0 < chunk_size"
  shows "start \<le> length text \<Longrightarrow>
         \<exists>cs. chunk_loop text chunk_size 0 chunks (int start) = Some (chunks @ cs) \<and>
              concat cs = drop start text \<and> (start < length text \<longrightarrow> cs \<noteq> [])"
proof (induction "length text - start" arbitrary: start chunks rule: less_induct)
  case less
  show ?case
  proof (cases "start < length text")
    case False
    with less.prems have "start = length text" by simp
    then show ?thesis by (subst chunk_loop.simps) simp
  next
    case True
    define e where "e = min (int start + chunk_size) (int (length text))"
    have e1: "int start < e" "e \<le> int (length text)" using True assms by (auto simp: e_def)
    define c where "c = slice text (int start) e"
    have c: "c = take (nat e - start) (drop start text)"
      unfolding c_def using e1 by (subst slice_nonneg) auto
    show ?thesis
    proof (cases "e \<ge> int (length text)")
      case True
      then have "e = int (length text)" using e1 by simp
      then have "chunk_loop text chunk_size 0 chunks (int start) = Some (chunks @ [c])"
        using \<open>start < length text\<close>
        by (subst chunk_loop.simps) (simp add: Let_def e_def c_def)
      moreover have "concat [c] = drop start text" using c \<open>e = int (length text)\<close> by simp
      ultimately show ?thesis by blast
    next
      case False
      then have lt: "nat e < length text" "start < nat e" "nat e \<le> length text" using e1 by auto
      have step: "chunk_loop text chunk_size 0 chunks (int start)
                  = chunk_loop text chunk_size 0 (chunks @ [c]) (int (nat e))"
        using \<open>start < length text\<close> False e1
        unfolding c_def e_def by (subst chunk_loop.simps) (simp add: Let_def)
      have "length text - nat e < length text - start" using lt by simp
      from less.hyps[OF this lt(3), of "chunks @ [c]"]
      obtain cs where cs:
        "chunk_loop text chunk_size 0 (chunks @ [c]) (int (nat e)) = Some ((chunks @ [c]) @ cs)"
        "concat cs = drop (nat e) text" by blast
      have "nat e = (nat e - start) + start" using lt by simp
      then have "drop (nat e) text = drop (nat e - start) (drop start text)"
        by (metis drop_drop)
      then have "concat (c # cs) = drop start text"
        using cs(2) c by (simp only: concat.simps append_take_drop_id)
      with step cs(1) show ?thesis by (intro exI[of _ "c # cs"]) simp
    qed
  qed
qed

lemma chunk_text_no_overlap:
  assumes "0 < chunk_size"
  shows "\<exists>cs. chunk_text text chunk_size 0 = Some cs \<and> cs \<noteq> [] \<and> concat cs = text"
proof -
  from chunk_loop_no_overlap[OF assms, of 0 "text" "[]"]
  obtain cs where cs: "chunk_loop text chunk_size 0 [] 0 = Some cs" "concat cs = text"
    "text \<noteq> [] \<longrightarrow> cs \<noteq> []" by auto
  show ?thesis
  proof (cases "cs = []")
    case True
    with cs show ?thesis by (auto simp: chunk_text_def)
  next
    case False
    with cs show ?thesis by (auto simp: chunk_text_def)
  qed
qed

lemma chunk_text_empty: "chunk_text [] chunk_size overlap = Some [[]]"
  unfolding chunk_text_def by (subst chunk_loop.simps) simp

text \<open>
  Claim C1. For every text, size > 0 and overlap with 0 <= overlap < size the chunker
  should return a non-empty sequence of chunks that reconstructs the text. The code
  does so when the overlap is 0 (\<open>chunk_text_no_overlap\<close>) and on the empty text;
  with a positive overlap it does not return at all: on the text \<open>abcdef\<close> with
  size 4 and overlap 2 the cursor goes 0, 2, 4, 4, 4, ... and the call never returns.
\<close>

theorem chunk_text_overlap_no_result: "chunk_text ''abcdef'' 4 2 = None"
  by (simp add: chunk_text_def chunk_loop_diverges)

text \<open>
  Claim C2. For every text, size and overlap with 0 <= overlap < size the chunker
  should terminate, its cursor advancing on every step. In the code the opposite holds
  as soon as the text is not empty and the overlap is positive: for every size, the
  call does not return.
\<close>

theorem chunk_text_never_terminates_with_overlap:
  "text \<noteq> [] \<Longrightarrow> 0 < overlap \<Longrightarrow> chunk_text text chunk_size overlap = None"
  by (simp add: chunk_text_def chunk_loop_diverges)

theorem chunk_text_never_terminates_with_overlap_witness:
  "''abc'' \<noteq> [] \<and> (0::int) < 1 \<and> chunk_text ''abc'' 2 1 = None"
  using chunk_text_never_terminates_with_overlap [of "''abc''" 1 2] by simp

text \<open>
  When the overlap is at least the size, the cursor never moves forward from 0:
  \<open>end\<close> is at most \<open>start + chunk_size\<close>, so \<open>end - overlap\<close> is at most \<open>start\<close>. On
  a non-empty text the loop then never ends.
\<close>

lemma chunk_loop_returns_only_if_cursor_advances:
  assumes "chunk_loop text chunk_size overlap chunks start = Some y"
  shows "\<not> (chunk_size \<le> overlap \<and> start \<le> 0 \<and> 0 < length text)"
proof (rule chunk_loop.raw_induct
    [where P = "\<lambda>t sz ov cs st y. \<not> (sz \<le> ov \<and> st \<le> 0 \<and> 0 < length t)", OF _ assms])
  fix f :: "'a list \<Rightarrow> int \<Rightarrow> int \<Rightarrow> 'a list list \<Rightarrow> int \<Rightarrow> 'a list list option"
  fix t :: "'a list" and sz ov :: int and cs :: "'a list list" and st :: int and y
  let ?n = "int (length t)"
  let ?e = "min (st + sz) ?n"
  assume IH: "\<And>t sz ov cs st y. f t sz ov cs st = Some y \<Longrightarrow>
                \<not> (sz \<le> ov \<and> st \<le> 0 \<and> 0 < length t)"
  assume body: "(if st < ?n then
        (let end = min (st + sz) ?n;
             chunks' = cs @ [slice t st end];
             start' = end - ov
         in if start' \<ge> ?n then Some chunks'
            else f t sz ov chunks' start')
      else Some cs) = Some y"
  show "\<not> (sz \<le> ov \<and> st \<le> 0 \<and> 0 < length t)"
  proof
    assume a: "sz \<le> ov \<and> st \<le> 0 \<and> 0 < length t"
    then have le: "?e - ov \<le> 0" by linarith
    from a have pos: "0 < ?n" by simp
    from body a le pos have "f t sz ov (cs @ [slice t st ?e]) (?e - ov) = Some y"
      by (simp add: Let_def)
    from IH[OF this] a le show False by simp
  qed
qed

lemma chunk_loop_diverges_without_advance:
  "chunk_size \<le> overlap \<Longrightarrow> text \<noteq> [] \<Longrightarrow> chunk_loop text chunk_size overlap chunks 0 = None"
  using chunk_loop_returns_only_if_cursor_advances [of "text" chunk_size overlap chunks 0]
  by (cases "chunk_loop text chunk_size overlap chunks 0") auto

text \<open>
  Claim C3. With overlap >= size the chunker should reject the call with a
  configuration error instead of entering a non-terminating loop. The code has no
  such check: on every non-empty text it enters the loop and does not return. On
  the text \<open>abc\<close> with size 2 and overlap 5 the cursor goes 0, -3, -6, ...
\<close>

theorem chunk_text_overlap_not_rejected:
  "text \<noteq> [] \<Longrightarrow> chunk_size \<le> overlap \<Longrightarrow> chunk_text text chunk_size overlap = None"
  by (simp add: chunk_text_def chunk_loop_diverges_without_advance)

theorem chunk_text_overlap_not_rejected_witness:
  "''abc'' \<noteq> [] \<and> (2::int) \<le> 5 \<and> chunk_text ''abc'' 2 5 = None"
  using chunk_text_overlap_not_rejected [of "''abc''" 2 5] by simp

text \<open>
  Claim C8. A text no longer than the size should give exactly one chunk, the whole
  text. The code does so for the empty text (\<open>chunk_text_empty\<close>) and when the
  overlap is 0; with a positive overlap and a non-empty text it does not return: on
  the text \<open>abc\<close> with size 10 and overlap 2, the first chunk is the whole text, the
  cursor becomes 1 and then stays there.
\<close>

theorem chunk_text_short_text_no_result: "chunk_text ''abc'' 10 2 = None"
  by (simp add: chunk_text_def chunk_loop_diverges)

section \<open>Properties of the JSON extractor\<close>

lemma index_first_pos:
  "index s c = (case first_pos c s of None \<Rightarrow> Inl ValueError | Some i \<Rightarrow> Inr (int i))"
  by (induction s) (auto simp: first_pos_def split: option.splits sum.splits)

lemma takeWhile_neq_less:
  "c \<in> set xs \<Longrightarrow> length (takeWhile (\<lambda>x. x \<noteq> c) xs) < length xs"
  by (induction xs) auto

lemma rindex_last_pos:
  "rindex s c = (case last_pos c s of None \<Rightarrow> Inl ValueError | Some i \<Rightarrow> Inr (int i))"
proof (induction s)
  case Nil
  then show ?case by (simp add: last_pos_def)
next
  case (Cons x xs)
  show ?case
  proof (cases "c \<in> set xs")
    case True
    then have tw: "takeWhile (\<lambda>x. x \<noteq> c) (rev xs @ [x]) = takeWhile (\<lambda>x. x \<noteq> c) (rev xs)"
      by (simp add: takeWhile_append1)
    from True have "length (takeWhile (\<lambda>x. x \<noteq> c) (rev xs)) < length xs"
      using takeWhile_neq_less[of c "rev xs"] by simp
    with True Cons tw show ?thesis
      by (auto simp: last_pos_def)
  next
    case False
    then have tw: "takeWhile (\<lambda>x. x \<noteq> c) (rev xs @ [x]) = rev xs @ takeWhile (\<lambda>x. x \<noteq> c) [x]"
      by (intro takeWhile_append2) auto
    with False Cons show ?thesis
      by (auto simp: last_pos_def)
  qed
qed

lemma first_pos_less: "first_pos c s = Some i \<Longrightarrow> i < length s"
  using takeWhile_neq_less[of c s] by (auto simp: first_pos_def split: if_splits)

lemma last_pos_less: "last_pos c s = Some j \<Longrightarrow> j < length s"
  by (cases s) (auto simp: last_pos_def split: if_splits)

lemma slice_between:
  "i < length s \<Longrightarrow> j < length s \<Longrightarrow> slice s (int i) (int j + 1) = between s i j"
  by (simp add: slice_def slice_bound_def between_def Let_def nat_add_distrib)

text \<open>
  One \<open>try\<close> block of the fallback (lines 109 to 111, and 114 to 116) succeeds exactly
  when the bracket strategy of the specification does, with the same value.
\<close>

lemma bracket_attempt:
  "(case (case index s lb of
      Inl e \<Rightarrow> Inl e
    | Inr start \<Rightarrow>
        (case rindex s rb of
           Inl e \<Rightarrow> Inl e
         | Inr end \<Rightarrow> loads (slice s start (end + 1)))) of Inr v \<Rightarrow> Some v | Inl e \<Rightarrow> None)
   = bracket_spec loads lb rb s"
proof (cases "first_pos lb s")
  case None
  then show ?thesis by (simp add: index_first_pos bracket_spec_def)
next
  case (Some i)
  note i = this
  show ?thesis
  proof (cases "last_pos rb s")
    case None
    with i show ?thesis by (simp add: index_first_pos rindex_last_pos bracket_spec_def)
  next
    case (Some j)
    have "slice s (int i) (int j + 1) = between s i j"
      using first_pos_less[OF i] last_pos_less[OF Some] by (rule slice_between)
    with i Some show ?thesis
      by (simp add: index_first_pos rindex_last_pos bracket_spec_def split: sum.splits)
  qed
qed

lemma try_parse_json_recover_spec: "try_parse_json loads s = recover_spec loads s"
  unfolding try_parse_json_def recover_spec_def
  using bracket_attempt[where s = s and lb = "CHR ''{''" and rb = "CHR ''}''" and loads = loads]
        bracket_attempt[where s = s and lb = "CHR ''[''" and rb = "CHR '']''" and loads = loads]
  by (auto split: sum.splits option.splits)

text \<open>
  Claim C5. For every raw reply, \<open>try_parse_json\<close> is the chain of the specification,
  first success winning: the whole string; else the inclusive slice from the first
  \<open>{\<close> to the last \<open>}\<close> when both exist and the slice parses; else the same with
  \<open>[\<close> and \<open>]\<close>; else \<open>NoValue\<close>. In particular, when the string and both slices do
  not parse, the result is \<open>NoValue\<close>.
\<close>

theorem try_parse_json_priority:
  "try_parse_json loads s = recover_spec loads s \<and>
   (isl (loads s) \<and> bracket_spec loads (CHR ''{'') (CHR ''}'') s = None \<and>
    bracket_spec loads (CHR ''['') (CHR '']'') s = None \<longrightarrow>
    try_parse_json loads s = PyNone)"
  by (auto simp: try_parse_json_recover_spec recover_spec_def split: sum.splits)

theorem try_parse_json_priority_witness:
  "try_parse_json example_loads ''Sure! Here is the data: {} Hope that helps'' = PyDict [] \<and>
   isl (example_loads ''not json at all'') \<and>
   bracket_spec example_loads (CHR ''{'') (CHR ''}'') ''not json at all'' = None \<and>
   bracket_spec example_loads (CHR ''['') (CHR '']'') ''not json at all'' = None \<and>
   try_parse_json example_loads ''not json at all'' = PyNone"
proof -
  have 1: "recover_spec example_loads ''Sure! Here is the data: {} Hope that helps'' = PyDict []"
    by (simp add: recover_spec_def bracket_spec_def first_pos_def last_pos_def between_def
        example_loads_def)
  have 2: "isl (example_loads ''not json at all'')"
    by (simp add: example_loads_def)
  have 3: "bracket_spec example_loads (CHR ''{'') (CHR ''}'') ''not json at all'' = None"
    by (simp add: bracket_spec_def first_pos_def)
  have 4: "bracket_spec example_loads (CHR ''['') (CHR '']'') ''not json at all'' = None"
    by (simp add: bracket_spec_def first_pos_def)
  from try_parse_json_priority [of example_loads "''Sure! Here is the data: {} Hope that helps''"] 1
  have "try_parse_json example_loads ''Sure! Here is the data: {} Hope that helps'' = PyDict []"
    by simp
  moreover from try_parse_json_priority [of example_loads "''not json at all''"] 2 3 4
  have "try_parse_json example_loads ''not json at all'' = PyNone"
    by blast
  ultimately show ?thesis using 2 3 4 by blast
qed

section \<open>Properties of the aggregator\<close>

lemma collect_contribution: "collect all_parsed parsed = all_parsed @ contribution_spec parsed"
  by (cases parsed) (simp_all add: collect_def)

lemma aggregate_append:
  "aggregate all_parsed vs = all_parsed @ concat (map contribution_spec vs)"
  by (induction vs arbitrary: all_parsed) (simp_all add: collect_contribution)

text \<open>
  Claim C6. For every sequence of recovered values, processed in chunk order, the
  record set is the concatenation of their contributions: the elements of an array in
  their order, an object as one record, nothing for \<open>NoValue\<close>, with no error and no
  deduplication. The same holds of the loop over the raw replies.
\<close>

theorem aggregate_in_chunk_order:
  "aggregate [] vs = concat (map contribution_spec vs) \<and>
   main_loop loads outs = concat (map (\<lambda>out. contribution_spec (try_parse_json loads out)) outs)"
  by (simp add: main_loop_def aggregate_append comp_def)

theorem aggregate_in_chunk_order_witness:
  "aggregate [] [PyList [PyDict [(''a'', PyInt 1)], PyDict [(''a'', PyInt 2)]], PyNone,
                 PyDict [(''b'', PyInt 3)]]
   = [PyDict [(''a'', PyInt 1)], PyDict [(''a'', PyInt 2)], PyDict [(''b'', PyInt 3)]]"
  using aggregate_in_chunk_order
    [of "[PyList [PyDict [(''a'', PyInt 1)], PyDict [(''a'', PyInt 2)]], PyNone,
          PyDict [(''b'', PyInt 3)]]" example_loads "[]"]
  by simp

text \<open>
  Claim C9. When the whole reply parses to a value that is neither a list nor a dict,
  \<open>try_parse_json\<close> returns that value, and the aggregation step leaves \<open>all_parsed\<close>
  as it is, raising nothing: the same as for \<open>None\<close>.
\<close>

theorem scalar_reply_dropped:
  "loads s = Inr v \<Longrightarrow> \<not> is_list v \<Longrightarrow> \<not> is_dict v \<Longrightarrow>
   try_parse_json loads s = v \<and>
   collect all_parsed (try_parse_json loads s) = all_parsed \<and>
   collect all_parsed v = collect all_parsed PyNone"
  by (cases v) (simp_all add: try_parse_json_def collect_def)

theorem scalar_reply_dropped_witness:
  "example_loads ''5'' = Inr (PyInt 5) \<and> \<not> is_list (PyInt 5) \<and> \<not> is_dict (PyInt 5) \<and>
   try_parse_json example_loads ''5'' = PyInt 5 \<and> PyInt 5 \<noteq> PyNone \<and>
   collect [PyDict []] (try_parse_json example_loads ''5'') = [PyDict []] \<and>
   collect [PyDict []] (PyInt 5) = collect [PyDict []] PyNone"
proof -
  have h: "example_loads ''5'' = Inr (PyInt 5)" by (simp add: example_loads_def)
  from scalar_reply_dropped [of example_loads "''5''" "PyInt 5" "[PyDict []]"] h
  show ?thesis by (simp add: collect_def)
qed

section \<open>Properties of the dispatch on file extensions\<close>





section \<open>Properties of the materializer\<close>




end
